theory Spec2Isabelle
  imports Main
begin

section \<open>Documents and collections\<close>

text \<open>
  The service keeps four MongoDB collections. Every document is written by one route of
  \<^verbatim>\<open>main.py\<close> as a dict literal with a fixed set of keys, so each kind of document is a
  record with exactly those keys. \<^verbatim>\<open>datetime.now(timezone.utc)\<close> is an input of every
  route: the time of the call.
\<close>

type_synonym datetime = nat

record user =
  username :: string
  ton_address :: "string option"
  referred_by :: "string option"
  is_banned :: bool
  balance :: int
  created_at :: datetime

record gamesession =
  s_username :: string
  s_game :: string
  s_score :: int
  s_duration_sec :: int
  s_created_at :: datetime

record reward =
  r_username :: string
  r_game :: string
  r_score :: int
  points_awarded :: int
  reason :: string
  r_created_at :: datetime

record withdrawalrequest =
  w_username :: string
  w_ton_address :: string
  w_points :: int
  w_status :: string
  w_created_at :: datetime

text \<open>A collection is the list of its documents in insertion order.\<close>

record store =
  user_coll :: "user list"
  gamesession_coll :: "gamesession list"
  reward_coll :: "reward list"
  withdrawalrequest_coll :: "withdrawalrequest list"

definition empty_store :: store where
  "empty_store =
     \<lparr>user_coll = [], gamesession_coll = [], reward_coll = [], withdrawalrequest_coll = []\<rparr>"

text \<open>
  \<^verbatim>\<open>raise HTTPException(status_code, detail)\<close> is the only exception the routes raise
  themselves; \<^verbatim>\<open>OperationFailure\<close> is what the driver raises when the server rejects a
  command.
\<close>

datatype error = HTTPException int string | OperationFailure

text \<open>The JSON objects the routes return, as key/value lists in the order written.\<close>

datatype json = JBool bool | JInt int | JStr string

type_synonym response = "(string \<times> json) list"

subsection \<open>Collection primitives\<close>

text \<open>\<^verbatim>\<open>find_one({"username": n})\<close>: the first document with that username, or None.\<close>

definition find_one :: "string \<Rightarrow> user list \<Rightarrow> user option" where
  "find_one n us = List.find (\<lambda>u. username u = n) us"

text \<open>\<^verbatim>\<open>insert_one(doc)\<close> appends the document.\<close>

definition insert_one :: "'a \<Rightarrow> 'a list \<Rightarrow> 'a list" where
  "insert_one doc coll = coll @ [doc]"

text \<open>
  Modelled from the spec: \<^verbatim>\<open>create_document\<close> is imported from \<^verbatim>\<open>database.py\<close>, which is
  not among the sources. The spec gives the store's operation as
  \<^verbatim>\<open>insert(collection, document)\<close>: the document is added to the named collection.
\<close>

definition create_document :: "'a \<Rightarrow> 'a list \<Rightarrow> 'a list" where
  "create_document doc coll = insert_one doc coll"

text \<open>
  \<^verbatim>\<open>update_one({"username": n}, {"$inc": {"balance": d}})\<close>: the first document with that
  username has \<open>d\<close> added to its balance; no document matching is not an error.
\<close>

fun update_one_inc :: "string \<Rightarrow> int \<Rightarrow> user list \<Rightarrow> user list" where
  "update_one_inc n d [] = []"
| "update_one_inc n d (u # us) =
     (if username u = n then u\<lparr>balance := balance u + d\<rparr> # us
      else u # update_one_inc n d us)"

text \<open>\<^verbatim>\<open>dict.get(key, default)\<close>.\<close>

definition dict_get :: "('k \<rightharpoonup> 'v) \<Rightarrow> 'k \<Rightarrow> 'v \<Rightarrow> 'v" where
  "dict_get m k d = (case m k of None \<Rightarrow> d | Some v \<Rightarrow> v)"

section \<open>Helpers\<close>

definition ensure_user :: "string \<Rightarrow> store \<Rightarrow> error + user" where
  "ensure_user n db =
     (case find_one n (user_coll db) of
        None \<Rightarrow> Inl (HTTPException 404 ''User not found'')
      | Some u \<Rightarrow> Inr u)"

definition cap_map :: "string \<rightharpoonup> int" where
  "cap_map = map_of [(''word'', 100), (''tiles'', 100), (''parking'', 100)]"

text \<open>Python's \<^verbatim>\<open>//\<close> on ints is floor division, as \<open>div\<close> on \<open>int\<close> is.\<close>

definition points_for :: "string \<Rightarrow> int \<Rightarrow> int" where
  "points_for game score =
     (let base = max 0 (score div 10)
      in min base (dict_get cap_map game 100))"

section \<open>Routes\<close>

text \<open>
  A route takes the fields of its request body, the time of the call and the store, and
  returns what the caller gets (the exception raised, or the JSON returned) together with
  the store it leaves behind.
\<close>

definition register ::
  "string \<Rightarrow> string option \<Rightarrow> string option \<Rightarrow> datetime \<Rightarrow> store \<Rightarrow> (error + response) \<times> store"
where
  "register uname ton refby now db =
     (case find_one uname (user_coll db) of
        Some u \<Rightarrow> (Inr [(''ok'', JBool True), (''message'', JStr ''User exists'')], db)
      | None \<Rightarrow>
          (let doc = \<lparr>username = uname, ton_address = ton, referred_by = refby,
                      is_banned = False, balance = 0, created_at = now\<rparr>
           in (Inr [(''ok'', JBool True)], db\<lparr>user_coll := insert_one doc (user_coll db)\<rparr>)))"

definition start_session ::
  "string \<Rightarrow> string \<Rightarrow> datetime \<Rightarrow> store \<Rightarrow> (error + response) \<times> store"
where
  "start_session uname game now db =
     (case ensure_user uname db of
        Inl e \<Rightarrow> (Inl e, db)
      | Inr usr \<Rightarrow>
          if is_banned usr then (Inl (HTTPException 403 ''User banned''), db)
          else
            (let sess = \<lparr>s_username = uname, s_game = game, s_score = 0,
                         s_duration_sec = 0, s_created_at = now\<rparr>
             in (Inr [(''ok'', JBool True)],
                 db\<lparr>gamesession_coll := create_document sess (gamesession_coll db)\<rparr>)))"

definition submit_score ::
  "string \<Rightarrow> string \<Rightarrow> int \<Rightarrow> int \<Rightarrow> datetime \<Rightarrow> store \<Rightarrow> (error + response) \<times> store"
where
  "submit_score uname game score duration_sec now db =
     (case ensure_user uname db of
        Inl e \<Rightarrow> (Inl e, db)
      | Inr usr \<Rightarrow>
          if is_banned usr then (Inl (HTTPException 403 ''User banned''), db)
          else
            (let pts = points_for game score;
                 reward_doc = \<lparr>r_username = uname, r_game = game, r_score = score,
                               points_awarded = pts, reason = ''session_completed'',
                               r_created_at = now\<rparr>;
                 db1 = db\<lparr>reward_coll := create_document reward_doc (reward_coll db)\<rparr>;
                 db2 = db1\<lparr>user_coll := update_one_inc uname pts (user_coll db1)\<rparr>
             in (Inr [(''ok'', JBool True), (''awarded'', JInt pts)], db2)))"

definition request_withdrawal ::
  "string \<Rightarrow> string \<Rightarrow> int \<Rightarrow> datetime \<Rightarrow> store \<Rightarrow> (error + response) \<times> store"
where
  "request_withdrawal uname ton points now db =
     (case ensure_user uname db of
        Inl e \<Rightarrow> (Inl e, db)
      | Inr usr \<Rightarrow>
          if points \<le> 0 \<or> points > balance usr
          then (Inl (HTTPException 400 ''Invalid amount''), db)
          else
            (let req = \<lparr>w_username = uname, w_ton_address = ton, w_points = points,
                        w_status = ''pending'', w_created_at = now\<rparr>;
                 db1 = db\<lparr>withdrawalrequest_coll :=
                            create_document req (withdrawalrequest_coll db)\<rparr>;
                 db2 = db1\<lparr>user_coll := update_one_inc uname (- points) (user_coll db1)\<rparr>
             in (Inr [(''ok'', JBool True), (''status'', JStr ''pending'')], db2)))"

subsection \<open>The leaderboard pipeline\<close>

text \<open>
  \<^verbatim>\<open>{"$group": {"_id": "$username", "total": {"$sum": "$points_awarded"}}}\<close>: one
  accumulator per distinct username, each reward added to the accumulator of its
  username. The server does not fix the order of the groups; the model lists them in
  order of first appearance.
\<close>

fun accumulate :: "string \<Rightarrow> int \<Rightarrow> (string \<times> int) list \<Rightarrow> (string \<times> int) list" where
  "accumulate k v [] = [(k, v)]"
| "accumulate k v ((k', t) # gs) =
     (if k' = k then (k', t + v) # gs else (k', t) # accumulate k v gs)"

definition group_stage :: "reward list \<Rightarrow> (string \<times> int) list" where
  "group_stage rs = foldl (\<lambda>gs r. accumulate (r_username r) (points_awarded r) gs) [] rs"

text \<open>\<^verbatim>\<open>{"$sort": {"total": -1}}\<close>: descending by total.\<close>

definition sort_stage :: "(string \<times> int) list \<Rightarrow> (string \<times> int) list" where
  "sort_stage gs = sort_key (\<lambda>g. - snd g) gs"

text \<open>
  \<^verbatim>\<open>{"$limit": n}\<close>: the stage takes a positive integer and passes the first \<open>n\<close>
  documents on; the server rejects the pipeline for any other \<open>n\<close>, and the driver
  raises \<^verbatim>\<open>OperationFailure\<close>.
\<close>

definition limit_stage :: "int \<Rightarrow> 'a list \<Rightarrow> error + 'a list" where
  "limit_stage n xs = (if n \<le> 0 then Inl OperationFailure else Inr (take (nat n) xs))"

definition aggregate :: "int \<Rightarrow> reward list \<Rightarrow> error + (string \<times> int) list" where
  "aggregate limit rs = limit_stage limit (sort_stage (group_stage rs))"

definition row :: "string \<times> int \<Rightarrow> response" where
  "row r = [(''username'', JStr (fst r)), (''points'', JInt (snd r))]"

definition leaderboard :: "int \<Rightarrow> store \<Rightarrow> (error + response list) \<times> store" where
  "leaderboard limit db =
     (case aggregate limit (reward_coll db) of
        Inl e \<Rightarrow> (Inl e, db)
      | Inr results \<Rightarrow> (Inr (map row results), db))"

section \<open>Sequential runs\<close>

text \<open>
  A request is one call of a state-changing route; a run serves timed requests one after
  the other, each on the store the previous one left, whether it succeeded or raised.
\<close>

datatype request =
    Register string "string option" "string option"
  | StartSession string string
  | SubmitScore string string int int
  | RequestWithdrawal string string int

fun serve :: "request \<Rightarrow> datetime \<Rightarrow> store \<Rightarrow> (error + response) \<times> store" where
  "serve (Register n ton refby) now db = register n ton refby now db"
| "serve (StartSession n g) now db = start_session n g now db"
| "serve (SubmitScore n g sc dur) now db = submit_score n g sc dur now db"
| "serve (RequestWithdrawal n ton p) now db = request_withdrawal n ton p now db"

fun run :: "(datetime \<times> request) list \<Rightarrow> store \<Rightarrow> store" where
  "run [] db = db"
| "run ((now, rq) # rqs) db = run rqs (snd (serve rq now db))"

text \<open>What the ledger says about a username: points earned, and points held or paid out.\<close>

definition earned :: "string \<Rightarrow> store \<Rightarrow> int" where
  "earned n db = sum_list (map points_awarded (filter (\<lambda>r. r_username r = n) (reward_coll db)))"

definition withdrawn :: "string \<Rightarrow> store \<Rightarrow> int" where
  "withdrawn n db =
     sum_list (map w_points
       (filter (\<lambda>w. w_username w = n \<and> w_status w \<noteq> ''rejected'') (withdrawalrequest_coll db)))"

section \<open>Properties of stores\<close>

text \<open>No stored balance is negative.\<close>

definition balances_nonneg :: "store \<Rightarrow> bool" where
  "balances_nonneg db \<longleftrightarrow> (\<forall>u\<in>set (user_coll db). 0 \<le> balance u)"

text \<open>
  The ledger invariant: usernames are unique, the balance stored under a username is what
  the ledger says, and the ledger holds nothing for a username that is not registered.
\<close>

definition ledger_inv :: "store \<Rightarrow> bool" where
  "ledger_inv db \<longleftrightarrow>
     distinct (map username (user_coll db)) \<and>
     (\<forall>n. case find_one n (user_coll db) of
            Some u \<Rightarrow> balance u = earned n db - withdrawn n db
          | None \<Rightarrow> earned n db = 0 \<and> withdrawn n db = 0)"

text \<open>A route succeeded when it returned a JSON object whose \<^verbatim>\<open>ok\<close> is true.\<close>

definition succeeded :: "error + response \<Rightarrow> bool" where
  "succeeded res = (case res of Inl e \<Rightarrow> False | Inr j \<Rightarrow> map_of j ''ok'' = Some (JBool True))"

text \<open>
  Between two user collections only the balance of documents named \<open>n\<close> differs, and at
  most one document differs at all.
\<close>

definition only_balance_of :: "string \<Rightarrow> user list \<Rightarrow> user list \<Rightarrow> bool" where
  "only_balance_of n us us' \<longleftrightarrow>
     list_all2 (\<lambda>u u'. u' = u\<lparr>balance := balance u'\<rparr> \<and> (username u \<noteq> n \<longrightarrow> u' = u)) us us' \<and>
     length (filter (\<lambda>(u, u'). u \<noteq> u') (zip us us')) \<le> 1"

subsection \<open>Example data\<close>

definition example_run :: "(datetime \<times> request) list" where
  "example_run =
     [(1, Register ''alice'' None None),
      (2, SubmitScore ''alice'' ''word'' 999 30),
      (3, Register ''bob'' (Some ''EQbob'') (Some ''alice'')),
      (4, RequestWithdrawal ''alice'' ''EQalice'' 60),
      (5, SubmitScore ''bob'' ''tiles'' 250 12),
      (6, RequestWithdrawal ''alice'' ''EQalice'' 40)]"

definition alice :: user where
  "alice = \<lparr>username = ''alice'', ton_address = None, referred_by = None, is_banned = False,
            balance = 39, created_at = 1\<rparr>"

definition bob :: user where
  "bob = \<lparr>username = ''bob'', ton_address = Some ''EQbob'', referred_by = Some ''alice'',
          is_banned = False, balance = 25, created_at = 3\<rparr>"

definition mallory :: user where
  "mallory = \<lparr>username = ''mallory'', ton_address = None, referred_by = None, is_banned = True,
              balance = 50, created_at = 7\<rparr>"

definition banned_store :: store where
  "banned_store = empty_store\<lparr>user_coll := [mallory]\<rparr>"

text \<open>The rewards A:50, B:30, A:20.\<close>

definition abc_store :: store where
  "abc_store = empty_store\<lparr>reward_coll :=
     [\<lparr>r_username = ''A'', r_game = ''word'', r_score = 500, points_awarded = 50,
        reason = ''session_completed'', r_created_at = 1\<rparr>,
      \<lparr>r_username = ''B'', r_game = ''tiles'', r_score = 300, points_awarded = 30,
        reason = ''session_completed'', r_created_at = 2\<rparr>,
      \<lparr>r_username = ''A'', r_game = ''parking'', r_score = 200, points_awarded = 20,
        reason = ''session_completed'', r_created_at = 3\<rparr>]\<rparr>"

section \<open>The award calculator\<close>

lemma cap_is_100: "dict_get cap_map g 100 = 100"
  by (simp add: dict_get_def cap_map_def)

text \<open>
  C1. For every game identifier \<open>g\<close>, known or not, and every non-negative score \<open>s\<close>,
  \<open>points_for g s\<close> is exactly \<open>min (s div 10) 100\<close>, which is not negative; the cap
  looked up for \<open>g\<close> is 100 whatever \<open>g\<close> is. The function is total and has no error
  result.
\<close>

theorem points_for_nonneg_score:
  "0 \<le> s \<Longrightarrow>
     points_for g s = min (s div 10) 100 \<and> 0 \<le> points_for g s \<and> dict_get cap_map g 100 = 100"
  by (simp add: points_for_def cap_is_100 Let_def pos_imp_zdiv_nonneg_iff)

theorem points_for_nonneg_score_witness:
  "(0::int) \<le> 999 \<and> points_for ''word'' 999 = 99 \<and> points_for ''chess'' 12345 = 100"
  using points_for_nonneg_score [of 999 "''word''"] points_for_nonneg_score [of 12345 "''chess''"]
  by simp

section \<open>Collection primitives and route outcomes\<close>

lemma find_one_SomeD: "find_one n us = Some u \<Longrightarrow> u \<in> set us \<and> username u = n"
  unfolding find_one_def by (induction us) (auto split: if_splits)

lemma find_one_None_iff: "find_one n us = None \<longleftrightarrow> n \<notin> username ` set us"
  unfolding find_one_def by (induction us) auto

lemma find_one_append_new:
  "find_one n us = None \<Longrightarrow> username d = n \<Longrightarrow> find_one n (us @ [d]) = Some d"
  unfolding find_one_def by (induction us) (auto split: if_splits)

lemma update_one_inc_split:
  "find_one n us = Some u \<Longrightarrow>
     \<exists>pre post. us = pre @ u # post \<and> n \<notin> username ` set pre \<and>
       update_one_inc n d us = pre @ u\<lparr>balance := balance u + d\<rparr> # post"
proof (induction us)
  case Nil
  then show ?case by (simp add: find_one_def)
next
  case (Cons a us)
  show ?case
  proof (cases "username a = n")
    case True
    with Cons.prems have "a = u" by (simp add: find_one_def)
    with True show ?thesis by (intro exI[of _ "[]"] exI[of _ us]) simp
  next
    case False
    with Cons.prems have "find_one n us = Some u" by (simp add: find_one_def)
    from Cons.IH[OF this] obtain pre post where
      "us = pre @ u # post" "n \<notin> username ` set pre"
      "update_one_inc n d us = pre @ u\<lparr>balance := balance u + d\<rparr> # post" by blast
    with False show ?thesis
      by (intro exI[of _ "a # pre"] exI[of _ post]) auto
  qed
qed

lemma update_one_inc_names [simp]: "map username (update_one_inc n d us) = map username us"
  by (induction us) auto

lemma find_one_update_one_inc:
  "find_one n us = Some u \<Longrightarrow> find_one n (update_one_inc n d us) = Some (u\<lparr>balance := balance u + d\<rparr>)"
  unfolding find_one_def by (induction us) (auto split: if_splits)

lemma find_one_update_one_inc_other:
  "m \<noteq> n \<Longrightarrow> find_one m (update_one_inc n d us) = find_one m us"
  unfolding find_one_def by (induction us) (auto split: if_splits)

lemma update_one_inc_mem:
  "find_one n us = Some u \<Longrightarrow> v \<in> set (update_one_inc n d us) \<Longrightarrow>
     v \<in> set us \<or> v = u\<lparr>balance := balance u + d\<rparr>"
  unfolding find_one_def by (induction us) (auto split: if_splits)


lemma points_for_range: "0 \<le> points_for g s \<and> points_for g s \<le> 100"
  by (simp add: points_for_def dict_get_def cap_map_def Let_def)

lemma submit_score_cases:
  assumes "submit_score n g sc dur now db = (res, db')"
  obtains (fail) e where "res = Inl e" "db' = db"
  | (ok) u where "find_one n (user_coll db) = Some u" "\<not> is_banned u"
      "res = Inr [(''ok'', JBool True), (''awarded'', JInt (points_for g sc))]"
      "db' = db\<lparr>reward_coll := reward_coll db @
                 [\<lparr>r_username = n, r_game = g, r_score = sc, points_awarded = points_for g sc,
                   reason = ''session_completed'', r_created_at = now\<rparr>],
               user_coll := update_one_inc n (points_for g sc) (user_coll db)\<rparr>"
  using assms
  by (auto simp: submit_score_def ensure_user_def create_document_def insert_one_def Let_def
           split: option.splits if_splits)

lemma request_withdrawal_cases:
  assumes "request_withdrawal n ton p now db = (res, db')"
  obtains (fail) e where "res = Inl e" "db' = db"
  | (ok) u where "find_one n (user_coll db) = Some u" "0 < p" "p \<le> balance u"
      "res = Inr [(''ok'', JBool True), (''status'', JStr ''pending'')]"
      "db' = db\<lparr>withdrawalrequest_coll := withdrawalrequest_coll db @
                 [\<lparr>w_username = n, w_ton_address = ton, w_points = p, w_status = ''pending'',
                   w_created_at = now\<rparr>],
               user_coll := update_one_inc n (- p) (user_coll db)\<rparr>"
  using assms
  by (auto simp: request_withdrawal_def ensure_user_def create_document_def insert_one_def Let_def
           split: option.splits if_splits)

lemma register_cases:
  assumes "register n ton refby now db = (res, db')"
  obtains (exists) u where "find_one n (user_coll db) = Some u"
      "res = Inr [(''ok'', JBool True), (''message'', JStr ''User exists'')]" "db' = db"
  | (new) "find_one n (user_coll db) = None" "res = Inr [(''ok'', JBool True)]"
      "db' = db\<lparr>user_coll := user_coll db @
                 [\<lparr>username = n, ton_address = ton, referred_by = refby, is_banned = False,
                   balance = 0, created_at = now\<rparr>]\<rparr>"
  using assms
  by (auto simp: register_def insert_one_def Let_def split: option.splits)

lemma start_session_cases:
  assumes "start_session n g now db = (res, db')"
  obtains (fail) e where "res = Inl e" "db' = db"
  | (ok) "res = Inr [(''ok'', JBool True)]"
      "db' = db\<lparr>gamesession_coll := gamesession_coll db @
                 [\<lparr>s_username = n, s_game = g, s_score = 0, s_duration_sec = 0,
                   s_created_at = now\<rparr>]\<rparr>"
  using assms
  by (auto simp: start_session_def ensure_user_def create_document_def insert_one_def Let_def
           split: option.splits if_splits)

lemma serve_nonneg:
  assumes "balances_nonneg db"
  shows "balances_nonneg (snd (serve rq now db))"
proof (cases rq)
  case (Register n ton refby)
  obtain res db' where r: "register n ton refby now db = (res, db')" by force
  from r assms have "balances_nonneg db'"
    by (cases rule: register_cases) (auto simp: balances_nonneg_def)
  with r Register show ?thesis by simp
next
  case (StartSession n g)
  obtain res db' where r: "start_session n g now db = (res, db')" by force
  from r assms have "balances_nonneg db'"
    by (cases rule: start_session_cases) (auto simp: balances_nonneg_def)
  with r StartSession show ?thesis by simp
next
  case (SubmitScore n g sc dur)
  obtain res db' where r: "submit_score n g sc dur now db = (res, db')" by force
  from r have "balances_nonneg db'"
  proof (cases rule: submit_score_cases)
    case (fail e)
    with assms show ?thesis by simp
  next
    case (ok u)
    have "0 \<le> balance v" if "v \<in> set (update_one_inc n (points_for g sc) (user_coll db))" for v
      using update_one_inc_mem[OF ok(1) that] assms find_one_SomeD[OF ok(1)] points_for_range[of g sc]
      by (auto simp: balances_nonneg_def)
    with ok show ?thesis by (simp add: balances_nonneg_def)
  qed
  with r SubmitScore show ?thesis by simp
next
  case (RequestWithdrawal n ton p)
  obtain res db' where r: "request_withdrawal n ton p now db = (res, db')" by force
  from r have "balances_nonneg db'"
  proof (cases rule: request_withdrawal_cases)
    case (fail e)
    with assms show ?thesis by simp
  next
    case (ok u)
    have "0 \<le> balance v" if "v \<in> set (update_one_inc n (- p) (user_coll db))" for v
      using update_one_inc_mem[OF ok(1) that] assms ok(3)
      by (auto simp: balances_nonneg_def)
    with ok show ?thesis by (simp add: balances_nonneg_def)
  qed
  with r RequestWithdrawal show ?thesis by simp
qed

lemma run_nonneg: "balances_nonneg db \<Longrightarrow> balances_nonneg (run rqs db)"
proof (induction rqs arbitrary: db)
  case Nil
  then show ?case by simp
next
  case (Cons a rqs)
  then show ?case by (cases a) (simp add: serve_nonneg)
qed

lemmas route_defs =
  register_def start_session_def submit_score_def request_withdrawal_def ensure_user_def
  find_one_def create_document_def insert_one_def points_for_def dict_get_def cap_map_def

lemma example_run_result:
  "run example_run empty_store =
     \<lparr>user_coll = [alice,
        \<lparr>username = ''bob'', ton_address = Some ''EQbob'', referred_by = Some ''alice'',
          is_banned = False, balance = 25, created_at = 3\<rparr>],
      gamesession_coll = [],
      reward_coll =
        [\<lparr>r_username = ''alice'', r_game = ''word'', r_score = 999, points_awarded = 99,
           reason = ''session_completed'', r_created_at = 2\<rparr>,
         \<lparr>r_username = ''bob'', r_game = ''tiles'', r_score = 250, points_awarded = 25,
           reason = ''session_completed'', r_created_at = 5\<rparr>],
      withdrawalrequest_coll =
        [\<lparr>w_username = ''alice'', w_ton_address = ''EQalice'', w_points = 60,
           w_status = ''pending'', w_created_at = 4\<rparr>]\<rparr>"
  by (simp add: example_run_def empty_store_def alice_def route_defs Let_def)

section \<open>Balances are never negative\<close>

text \<open>
  C2. Starting from the empty store, after any sequence of register, start_session,
  submit_score and request_withdrawal calls served one after the other, every stored user
  has a balance of at least 0.
\<close>

theorem balance_never_negative:
  "u \<in> set (user_coll (run rqs empty_store)) \<Longrightarrow> 0 \<le> balance u"
  using run_nonneg[of empty_store rqs] by (simp add: balances_nonneg_def empty_store_def)

theorem balance_never_negative_witness:
  "alice \<in> set (user_coll (run example_run empty_store)) \<and> 0 \<le> balance alice"
proof -
  have m: "alice \<in> set (user_coll (run example_run empty_store))"
    by (simp add: example_run_result)
  from balance_never_negative[OF m] m show ?thesis by simp
qed

section \<open>The balance is the ledger's projection\<close>

lemma find_one_snoc:
  "find_one m (us @ [d]) =
     (case find_one m us of Some u \<Rightarrow> Some u | None \<Rightarrow> if username d = m then Some d else None)"
  unfolding find_one_def by (induction us) auto

lemma find_one_update_one_inc_any:
  "find_one m (update_one_inc n d us) =
     (if m = n then map_option (\<lambda>u. u\<lparr>balance := balance u + d\<rparr>) (find_one n us)
      else find_one m us)"
  unfolding find_one_def by (induction us) auto

lemma ledger_inv_empty: "ledger_inv empty_store"
  by (simp add: ledger_inv_def empty_store_def find_one_def earned_def withdrawn_def)

lemma register_ledger:
  assumes "ledger_inv db" "register n ton refby now db = (res, db')"
  shows "ledger_inv db'"
  using assms(2)
proof (cases rule: register_cases)
  case (exists u)
  with assms show ?thesis by simp
next
  case new
  have "case find_one m (user_coll db') of
          Some v \<Rightarrow> balance v = earned m db' - withdrawn m db'
        | None \<Rightarrow> earned m db' = 0 \<and> withdrawn m db' = 0" for m
    using assms(1)[unfolded ledger_inv_def, THEN conjunct2, THEN spec, of m] new(1)
    by (cases "m = n")
       (auto simp: new(3) find_one_snoc earned_def withdrawn_def split: option.splits)
  moreover have "distinct (map username (user_coll db'))"
    using assms(1) new(1) by (simp add: new(3) ledger_inv_def find_one_None_iff)
  ultimately show ?thesis by (simp add: ledger_inv_def)
qed

lemma start_session_ledger:
  assumes "ledger_inv db" "start_session n g now db = (res, db')"
  shows "ledger_inv db'"
  using assms(2)
proof (cases rule: start_session_cases)
  case (fail e)
  with assms show ?thesis by simp
next
  case ok
  have "case find_one m (user_coll db') of
          Some v \<Rightarrow> balance v = earned m db' - withdrawn m db'
        | None \<Rightarrow> earned m db' = 0 \<and> withdrawn m db' = 0" for m
    using assms(1)[unfolded ledger_inv_def, THEN conjunct2, THEN spec, of m]
    by (auto simp: ok(2) earned_def withdrawn_def split: option.splits)
  moreover have "distinct (map username (user_coll db'))"
    using assms(1) by (simp add: ok(2) ledger_inv_def)
  ultimately show ?thesis by (simp add: ledger_inv_def)
qed

lemma submit_score_ledger:
  assumes "ledger_inv db" "submit_score n g sc dur now db = (res, db')"
  shows "ledger_inv db'"
  using assms(2)
proof (cases rule: submit_score_cases)
  case (fail e)
  with assms show ?thesis by simp
next
  case (ok u)
  have "case find_one m (user_coll db') of
          Some v \<Rightarrow> balance v = earned m db' - withdrawn m db'
        | None \<Rightarrow> earned m db' = 0 \<and> withdrawn m db' = 0" for m
    using assms(1)[unfolded ledger_inv_def, THEN conjunct2, THEN spec, of m] ok(1)
    by (cases "m = n")
       (auto simp: ok(4) find_one_update_one_inc_any earned_def withdrawn_def split: option.splits)
  moreover have "distinct (map username (user_coll db'))"
    using assms(1) by (simp add: ok(4) ledger_inv_def)
  ultimately show ?thesis by (simp add: ledger_inv_def)
qed

lemma request_withdrawal_ledger:
  assumes "ledger_inv db" "request_withdrawal n ton p now db = (res, db')"
  shows "ledger_inv db'"
  using assms(2)
proof (cases rule: request_withdrawal_cases)
  case (fail e)
  with assms show ?thesis by simp
next
  case (ok u)
  have "case find_one m (user_coll db') of
          Some v \<Rightarrow> balance v = earned m db' - withdrawn m db'
        | None \<Rightarrow> earned m db' = 0 \<and> withdrawn m db' = 0" for m
    using assms(1)[unfolded ledger_inv_def, THEN conjunct2, THEN spec, of m] ok(1)
    by (cases "m = n")
       (auto simp: ok(5) find_one_update_one_inc_any earned_def withdrawn_def split: option.splits)
  moreover have "distinct (map username (user_coll db'))"
    using assms(1) by (simp add: ok(5) ledger_inv_def)
  ultimately show ?thesis by (simp add: ledger_inv_def)
qed

lemma serve_ledger: "ledger_inv db \<Longrightarrow> ledger_inv (snd (serve rq now db))"
  by (cases rq)
     (auto intro: register_ledger start_session_ledger submit_score_ledger
                  request_withdrawal_ledger prod.collapse[symmetric])

lemma run_ledger: "ledger_inv db \<Longrightarrow> ledger_inv (run rqs db)"
proof (induction rqs arbitrary: db)
  case Nil
  then show ?case by simp
next
  case (Cons a rqs)
  then show ?case by (cases a) (simp add: serve_ledger)
qed

lemma find_one_distinct:
  "distinct (map username us) \<Longrightarrow> u \<in> set us \<Longrightarrow> find_one (username u) us = Some u"
  unfolding find_one_def by (induction us) (auto simp: image_iff)

text \<open>
  C6. In every store reached from the empty store by a sequential run, the balance of each
  stored user is the sum of \<open>points_awarded\<close> over the rewards of that username minus
  the sum of \<open>points\<close> over the withdrawal requests of that username whose status is not
  \<^verbatim>\<open>rejected\<close>.
\<close>

theorem balance_matches_ledger:
  assumes "u \<in> set (user_coll (run rqs empty_store))"
  shows "balance u = earned (username u) (run rqs empty_store)
                     - withdrawn (username u) (run rqs empty_store)"
proof -
  let ?db = "run rqs empty_store"
  have inv: "ledger_inv ?db" by (rule run_ledger[OF ledger_inv_empty])
  then have "find_one (username u) (user_coll ?db) = Some u"
    using assms by (simp add: ledger_inv_def find_one_distinct)
  with inv[unfolded ledger_inv_def, THEN conjunct2, THEN spec, of "username u"]
  show ?thesis by simp
qed

theorem balance_matches_ledger_witness:
  "alice \<in> set (user_coll (run example_run empty_store)) \<and>
   balance alice = 99 - 60 \<and>
   earned ''alice'' (run example_run empty_store) = 99 \<and>
   withdrawn ''alice'' (run example_run empty_store) = 60"
proof -
  have m: "alice \<in> set (user_coll (run example_run empty_store))"
    by (simp add: example_run_result)
  have e: "earned ''alice'' (run example_run empty_store) = 99"
    by (simp add: example_run_result earned_def)
  have w: "withdrawn ''alice'' (run example_run empty_store) = 60"
    by (simp add: example_run_result withdrawn_def)
  from balance_matches_ledger[OF m] m e w show ?thesis by (simp add: alice_def)
qed

section \<open>Outcomes of single calls\<close>

lemma find_one_alice: "find_one ''alice'' (user_coll (run example_run empty_store)) = Some alice"
  by (simp add: example_run_result find_one_def alice_def)

lemma example_users: "user_coll (run example_run empty_store) = [alice, bob]"
  by (simp add: example_run_result bob_def)

lemma request_withdrawal_success:
  assumes "find_one n (user_coll db) = Some u" "0 < p" "p \<le> balance u"
  shows "request_withdrawal n ton p now db =
     (Inr [(''ok'', JBool True), (''status'', JStr ''pending'')],
      db\<lparr>withdrawalrequest_coll := withdrawalrequest_coll db @
            [\<lparr>w_username = n, w_ton_address = ton, w_points = p, w_status = ''pending'',
              w_created_at = now\<rparr>],
          user_coll := update_one_inc n (- p) (user_coll db)\<rparr>)"
  using assms
  by (simp add: request_withdrawal_def ensure_user_def create_document_def insert_one_def Let_def)

lemma find_one_bob: "find_one ''bob'' (user_coll (run example_run empty_store)) = Some bob"
  by (simp add: example_users find_one_def alice_def bob_def)

lemma submit_score_ok:
  assumes "find_one n (user_coll db) = Some u" "\<not> is_banned u"
  shows "submit_score n g sc dur now db =
     (Inr [(''ok'', JBool True), (''awarded'', JInt (points_for g sc))],
      db\<lparr>reward_coll := reward_coll db @
            [\<lparr>r_username = n, r_game = g, r_score = sc, points_awarded = points_for g sc,
              reason = ''session_completed'', r_created_at = now\<rparr>],
          user_coll := update_one_inc n (points_for g sc) (user_coll db)\<rparr>)"
  using assms
  by (simp add: submit_score_def ensure_user_def create_document_def insert_one_def Let_def)

subsection \<open>Rejected withdrawals\<close>

text \<open>
  C3. For an existing user (the document \<open>find_one\<close> returns for the username) and a
  requested amount that is not positive or exceeds that user's balance,
  \<open>request_withdrawal\<close> raises HTTP 400 \<^verbatim>\<open>Invalid amount\<close> and leaves the whole store as
  it was: no withdrawal request is recorded and no balance changes.
\<close>

theorem request_withdrawal_invalid_amount:
  "find_one n (user_coll db) = Some u \<Longrightarrow> p \<le> 0 \<or> balance u < p \<Longrightarrow>
     request_withdrawal n ton p now db = (Inl (HTTPException 400 ''Invalid amount''), db)"
  by (auto simp: request_withdrawal_def ensure_user_def)

theorem request_withdrawal_invalid_amount_witness:
  "find_one ''alice'' (user_coll (run example_run empty_store)) = Some alice \<and>
   balance alice < 40 \<and>
   request_withdrawal ''alice'' ''EQalice'' 40 6 (run example_run empty_store) =
     (Inl (HTTPException 400 ''Invalid amount''), run example_run empty_store) \<and>
   request_withdrawal ''alice'' ''EQalice'' 0 6 (run example_run empty_store) =
     (Inl (HTTPException 400 ''Invalid amount''), run example_run empty_store)"
proof -
  have b: "balance alice < 40" by (simp add: alice_def)
  from request_withdrawal_invalid_amount[OF find_one_alice, of 40 "''EQalice''" 6]
       request_withdrawal_invalid_amount[OF find_one_alice, of 0 "''EQalice''" 6] b find_one_alice
  show ?thesis by simp
qed

subsection \<open>Banned users and withdrawals\<close>

text \<open>
  C4. The claim is that a banned user's withdrawal is rejected with HTTP 403. The route
  never reads \<open>is_banned\<close>: for the banned user \<open>mallory\<close> with balance 50, a withdrawal
  of 50 succeeds, records a pending request and takes the balance to 0, while
  \<open>submit_score\<close> on the same store raises HTTP 403 \<^verbatim>\<open>User banned\<close>.
\<close>

theorem request_withdrawal_ignores_ban:
  "find_one ''mallory'' (user_coll banned_store) = Some mallory \<and> is_banned mallory \<and>
   request_withdrawal ''mallory'' ''EQmallory'' 50 9 banned_store =
     (Inr [(''ok'', JBool True), (''status'', JStr ''pending'')],
      banned_store
        \<lparr>user_coll := [mallory\<lparr>balance := 0\<rparr>],
         withdrawalrequest_coll :=
           [\<lparr>w_username = ''mallory'', w_ton_address = ''EQmallory'', w_points = 50,
             w_status = ''pending'', w_created_at = 9\<rparr>]\<rparr>) \<and>
   submit_score ''mallory'' ''word'' 999 30 9 banned_store =
     (Inl (HTTPException 403 ''User banned''), banned_store)"
  by (simp add: banned_store_def mallory_def empty_store_def route_defs Let_def)

subsection \<open>Crediting a score\<close>

text \<open>
  C5. For an existing user who is not banned, \<open>submit_score\<close> returns the awarded
  amount \<open>points_for game score\<close>, appends exactly one reward to the reward collection,
  with that amount as \<open>points_awarded\<close> and reason \<^verbatim>\<open>session_completed\<close>, and leaves the
  user's document with its balance increased by exactly that amount. For score 999 in
  game \<^verbatim>\<open>word\<close> the amount is 99.
\<close>

theorem submit_score_credits:
  assumes "find_one n (user_coll db) = Some u" "\<not> is_banned u"
  shows "fst (submit_score n g sc dur now db) =
           Inr [(''ok'', JBool True), (''awarded'', JInt (points_for g sc))] \<and>
         reward_coll (snd (submit_score n g sc dur now db)) =
           reward_coll db @
             [\<lparr>r_username = n, r_game = g, r_score = sc, points_awarded = points_for g sc,
               reason = ''session_completed'', r_created_at = now\<rparr>] \<and>
         find_one n (user_coll (snd (submit_score n g sc dur now db))) =
           Some (u\<lparr>balance := balance u + points_for g sc\<rparr>) \<and>
         points_for ''word'' 999 = 99"
  using assms find_one_update_one_inc[OF assms(1)]
  by (simp add: submit_score_ok points_for_def dict_get_def cap_map_def)

theorem submit_score_credits_witness:
  "find_one ''alice'' (user_coll (run example_run empty_store)) = Some alice \<and>
   \<not> is_banned alice \<and>
   fst (submit_score ''alice'' ''word'' 999 30 8 (run example_run empty_store)) =
     Inr [(''ok'', JBool True), (''awarded'', JInt 99)] \<and>
   reward_coll (snd (submit_score ''alice'' ''word'' 999 30 8 (run example_run empty_store))) =
     reward_coll (run example_run empty_store) @
       [\<lparr>r_username = ''alice'', r_game = ''word'', r_score = 999, points_awarded = 99,
         reason = ''session_completed'', r_created_at = 8\<rparr>] \<and>
   find_one ''alice''
     (user_coll (snd (submit_score ''alice'' ''word'' 999 30 8 (run example_run empty_store)))) =
     Some (alice\<lparr>balance := 138\<rparr>)"
proof -
  have nb: "\<not> is_banned alice" by (simp add: alice_def)
  have p: "points_for ''word'' 999 = 99" by (simp add: points_for_def dict_get_def cap_map_def)
  have b: "balance alice + 99 = 138" by (simp add: alice_def)
  from submit_score_credits[OF find_one_alice nb, of "''word''" 999 30 8] find_one_alice nb
  show ?thesis by (simp add: p b)
qed

subsection \<open>Registering twice\<close>

text \<open>
  C7. Registering a username twice, whatever the other fields and the times of the two
  calls, succeeds both times, and the second call leaves the store, and so the stored
  user document, exactly as the first call left it.
\<close>

theorem register_idempotent:
  "succeeded (fst (register n ton refby now db)) \<and>
   succeeded (fst (register n ton' refby' now' (snd (register n ton refby now db)))) \<and>
   snd (register n ton' refby' now' (snd (register n ton refby now db))) =
     snd (register n ton refby now db) \<and>
   find_one n (user_coll (snd (register n ton refby now db))) \<noteq> None"
proof (cases "find_one n (user_coll db)")
  case None
  let ?doc = "\<lparr>username = n, ton_address = ton, referred_by = refby, is_banned = False,
               balance = 0, created_at = now\<rparr>"
  have "find_one n (user_coll db @ [?doc]) = Some ?doc"
    by (rule find_one_append_new[OF None]) simp
  with None show ?thesis
    by (simp add: register_def insert_one_def succeeded_def Let_def)
next
  case (Some u)
  then show ?thesis by (simp add: register_def succeeded_def)
qed

subsection \<open>Scores outside the stated domain\<close>

text \<open>
  C9. For every game identifier and every integer score, negative ones included,
  \<open>points_for\<close> returns a value from 0 to 100, and 0 for a negative score. So
  \<open>submit_score\<close> with a negative score succeeds for an existing user who is not banned,
  awards 0 and leaves the user's document as it was.
\<close>

theorem points_for_any_score:
  "0 \<le> points_for g s \<and> points_for g s \<le> 100 \<and>
   (s < 0 \<longrightarrow> points_for g s = 0) \<and>
   (find_one n (user_coll db) = Some u \<and> \<not> is_banned u \<and> s < 0 \<longrightarrow>
      fst (submit_score n g s dur now db) = Inr [(''ok'', JBool True), (''awarded'', JInt 0)] \<and>
      find_one n (user_coll (snd (submit_score n g s dur now db))) = Some u)"
proof -
  have z: "points_for g s = 0" if "s < 0"
    using that by (simp add: points_for_def dict_get_def cap_map_def Let_def neg_imp_zdiv_neg_iff)
  have "fst (submit_score n g s dur now db) = Inr [(''ok'', JBool True), (''awarded'', JInt 0)] \<and>
        find_one n (user_coll (snd (submit_score n g s dur now db))) = Some u"
    if f: "find_one n (user_coll db) = Some u" and nb: "\<not> is_banned u" and neg: "s < 0"
    using find_one_update_one_inc[OF f, of 0] by (simp add: submit_score_ok[OF f nb] z[OF neg])
  with z points_for_range[of g s] show ?thesis by blast
qed

theorem points_for_any_score_witness:
  "find_one ''alice'' (user_coll (run example_run empty_store)) = Some alice \<and>
   \<not> is_banned alice \<and> (- 25 :: int) < 0 \<and> points_for ''parking'' (- 25) = 0 \<and>
   fst (submit_score ''alice'' ''parking'' (- 25) 3 8 (run example_run empty_store)) =
     Inr [(''ok'', JBool True), (''awarded'', JInt 0)] \<and>
   find_one ''alice''
     (user_coll (snd (submit_score ''alice'' ''parking'' (- 25) 3 8 (run example_run empty_store)))) =
     Some alice"
proof -
  have nb: "\<not> is_banned alice" by (simp add: alice_def)
  from points_for_any_score[of "''parking''" "- 25" "''alice''" "run example_run empty_store" alice 3 8]
       find_one_alice nb
  show ?thesis by simp
qed

section \<open>Frame conditions\<close>

lemma zip_same_no_diff: "filter (\<lambda>(u, u'). u \<noteq> u') (zip us us) = []"
  by (induction us) auto

lemma only_balance_of_update_one_inc: "only_balance_of n us (update_one_inc n d us)"
proof (induction us)
  case Nil
  then show ?case by (simp add: only_balance_of_def)
next
  case (Cons a us)
  show ?case
  proof (cases "username a = n")
    case True
    then show ?thesis
      by (simp add: only_balance_of_def zip_same_no_diff list_all2_same)
  next
    case False
    with Cons.IH show ?thesis by (simp add: only_balance_of_def)
  qed
qed

lemma request_withdrawal_ok:
  assumes "request_withdrawal n ton p now db = (Inr r, db')"
  shows "db' = db\<lparr>withdrawalrequest_coll := withdrawalrequest_coll db @
                 [\<lparr>w_username = n, w_ton_address = ton, w_points = p, w_status = ''pending'',
                   w_created_at = now\<rparr>],
               user_coll := update_one_inc n (- p) (user_coll db)\<rparr>"
  using assms by (cases rule: request_withdrawal_cases) auto

lemma submit_score_ok_store:
  assumes "submit_score n g sc dur now db = (Inr r, db')"
  shows "db' = db\<lparr>reward_coll := reward_coll db @
                 [\<lparr>r_username = n, r_game = g, r_score = sc, points_awarded = points_for g sc,
                   reason = ''session_completed'', r_created_at = now\<rparr>],
               user_coll := update_one_inc n (points_for g sc) (user_coll db)\<rparr>"
  using assms by (cases rule: submit_score_cases) auto

text \<open>
  C10. A successful \<open>submit_score\<close> or \<open>request_withdrawal\<close> changes, in the user
  collection, at most one document, a document of the named user, and only its balance:
  username, TON address, referrer, ban flag and creation time stay, and so does every
  other user's document. The records stored before the call are all still there,
  unchanged: \<open>submit_score\<close> only appends one reward, \<open>request_withdrawal\<close> only
  appends one withdrawal request.
\<close>

theorem successful_calls_frame:
  "(submit_score n g sc dur now db = (Inr r, db') \<longrightarrow>
      only_balance_of n (user_coll db) (user_coll db') \<and>
      length (reward_coll db') = Suc (length (reward_coll db)) \<and>
      take (length (reward_coll db)) (reward_coll db') = reward_coll db \<and>
      withdrawalrequest_coll db' = withdrawalrequest_coll db \<and>
      gamesession_coll db' = gamesession_coll db) \<and>
   (request_withdrawal n ton p now db = (Inr r, db') \<longrightarrow>
      only_balance_of n (user_coll db) (user_coll db') \<and>
      length (withdrawalrequest_coll db') = Suc (length (withdrawalrequest_coll db)) \<and>
      take (length (withdrawalrequest_coll db)) (withdrawalrequest_coll db') =
        withdrawalrequest_coll db \<and>
      reward_coll db' = reward_coll db \<and>
      gamesession_coll db' = gamesession_coll db)"
proof (intro conjI impI)
  assume a: "submit_score n g sc dur now db = (Inr r, db')"
  note s = submit_score_ok_store[OF a]
  show "only_balance_of n (user_coll db) (user_coll db')"
    by (simp add: s only_balance_of_update_one_inc)
  show "length (reward_coll db') = Suc (length (reward_coll db))" by (simp add: s)
  show "take (length (reward_coll db)) (reward_coll db') = reward_coll db" by (simp add: s)
  show "withdrawalrequest_coll db' = withdrawalrequest_coll db" by (simp add: s)
  show "gamesession_coll db' = gamesession_coll db" by (simp add: s)
next
  assume a: "request_withdrawal n ton p now db = (Inr r, db')"
  note s = request_withdrawal_ok[OF a]
  show "only_balance_of n (user_coll db) (user_coll db')"
    by (simp add: s only_balance_of_update_one_inc)
  show "length (withdrawalrequest_coll db') = Suc (length (withdrawalrequest_coll db))"
    by (simp add: s)
  show "take (length (withdrawalrequest_coll db)) (withdrawalrequest_coll db') =
          withdrawalrequest_coll db" by (simp add: s)
  show "reward_coll db' = reward_coll db" by (simp add: s)
  show "gamesession_coll db' = gamesession_coll db" by (simp add: s)
qed

theorem successful_calls_frame_witness:
  "(\<exists>r db'. request_withdrawal ''alice'' ''EQalice'' 30 8 (run example_run empty_store) = (Inr r, db') \<and>
      user_coll db' = [alice\<lparr>balance := 9\<rparr>, bob] \<and>
      only_balance_of ''alice'' [alice, bob] (user_coll db') \<and>
      reward_coll db' = reward_coll (run example_run empty_store)) \<and>
   (\<exists>r db'. submit_score ''bob'' ''tiles'' 70 5 8 (run example_run empty_store) = (Inr r, db') \<and>
      user_coll db' = [alice, bob\<lparr>balance := 32\<rparr>] \<and>
      only_balance_of ''bob'' [alice, bob] (user_coll db') \<and>
      withdrawalrequest_coll db' = withdrawalrequest_coll (run example_run empty_store))"
proof -
  let ?db = "run example_run empty_store"
  have pa: "(0::int) < 30" "30 \<le> balance alice" by (simp_all add: alice_def)
  have nb: "\<not> is_banned bob" by (simp add: bob_def)
  obtain r1 d1 where w: "request_withdrawal ''alice'' ''EQalice'' 30 8 ?db = (Inr r1, d1)"
    and d1: "d1 = ?db\<lparr>withdrawalrequest_coll := withdrawalrequest_coll ?db @
                 [\<lparr>w_username = ''alice'', w_ton_address = ''EQalice'', w_points = 30,
                   w_status = ''pending'', w_created_at = 8\<rparr>],
               user_coll := update_one_inc ''alice'' (- 30) (user_coll ?db)\<rparr>"
    using request_withdrawal_success[OF find_one_alice pa, of "''EQalice''" 8] by blast
  obtain r2 d2 where s: "submit_score ''bob'' ''tiles'' 70 5 8 ?db = (Inr r2, d2)"
    and d2: "d2 = ?db\<lparr>reward_coll := reward_coll ?db @
                 [\<lparr>r_username = ''bob'', r_game = ''tiles'', r_score = 70,
                   points_awarded = points_for ''tiles'' 70,
                   reason = ''session_completed'', r_created_at = 8\<rparr>],
               user_coll := update_one_inc ''bob'' (points_for ''tiles'' 70) (user_coll ?db)\<rparr>"
    using submit_score_ok[OF find_one_bob nb, of "''tiles''" 70 5 8] by blast
  have u1: "user_coll d1 = [alice\<lparr>balance := 9\<rparr>, bob]"
    by (simp add: d1 example_users) (simp add: alice_def)
  have u2: "user_coll d2 = [alice, bob\<lparr>balance := 32\<rparr>]"
    by (simp add: d2 example_users points_for_def dict_get_def cap_map_def)
       (simp add: alice_def bob_def)
  from successful_calls_frame[of "''alice''" g sc dur 8 ?db r1 d1 "''EQalice''" 30] w
  have f1: "only_balance_of ''alice'' [alice, bob] (user_coll d1)"
       "reward_coll d1 = reward_coll ?db"
    by (simp_all add: example_users)
  from successful_calls_frame[of "''bob''" "''tiles''" 70 5 8 ?db r2 d2 ton p] s
  have f2: "only_balance_of ''bob'' [alice, bob] (user_coll d2)"
       "withdrawalrequest_coll d2 = withdrawalrequest_coll ?db"
    by (simp_all add: example_users)
  from w u1 f1 s u2 f2 show ?thesis by blast
qed

section \<open>The leaderboard\<close>

lemma accumulate_keys: "fst ` set (accumulate k v gs) = insert k (fst ` set gs)"
  by (induction k v gs rule: accumulate.induct) auto

lemma accumulate_distinct:
  "distinct (map fst gs) \<Longrightarrow> distinct (map fst (accumulate k v gs))"
proof (induction k v gs rule: accumulate.induct)
  case (1 k v)
  then show ?case by simp
next
  case (2 k v k' t gs)
  then show ?case by (auto simp: accumulate_keys)
qed

lemma accumulate_lookup:
  "map_of (accumulate k v gs) k' =
     (if k' = k then Some ((case map_of gs k of None \<Rightarrow> 0 | Some t \<Rightarrow> t) + v)
      else map_of gs k')"
  by (induction k v gs rule: accumulate.induct) auto

lemma foldl_accumulate:
  assumes "distinct (map fst gs)"
  shows "distinct (map fst (foldl (\<lambda>gs r. accumulate (r_username r) (points_awarded r) gs) gs rs)) \<and>
         fst ` set (foldl (\<lambda>gs r. accumulate (r_username r) (points_awarded r) gs) gs rs) =
           fst ` set gs \<union> r_username ` set rs \<and>
         (\<forall>k. (case map_of (foldl (\<lambda>gs r. accumulate (r_username r) (points_awarded r) gs) gs rs) k
                of None \<Rightarrow> 0 | Some t \<Rightarrow> t) =
              (case map_of gs k of None \<Rightarrow> 0 | Some t \<Rightarrow> t) +
              sum_list (map points_awarded (filter (\<lambda>r. r_username r = k) rs)))"
  using assms
proof (induction rs arbitrary: gs)
  case Nil
  then show ?case by simp
next
  case (Cons r rs)
  let ?gs = "accumulate (r_username r) (points_awarded r) gs"
  have d: "distinct (map fst ?gs)" by (rule accumulate_distinct[OF Cons.prems])
  from Cons.IH[OF d] show ?case
    by (auto simp: accumulate_keys accumulate_lookup)
qed

lemma group_stage_distinct: "distinct (map fst (group_stage rs))"
  using foldl_accumulate[of "[]" rs] by (simp add: group_stage_def)

lemma group_stage_keys: "fst ` set (group_stage rs) = r_username ` set rs"
  using foldl_accumulate[of "[]" rs] by (simp add: group_stage_def)

lemma group_stage_total:
  assumes "g \<in> set (group_stage rs)"
  shows "snd g = sum_list (map points_awarded (filter (\<lambda>r. r_username r = fst g) rs))"
proof -
  from assms have "map_of (group_stage rs) (fst g) = Some (snd g)"
    by (simp add: group_stage_distinct)
  moreover have "(case map_of (group_stage rs) (fst g) of None \<Rightarrow> 0 | Some t \<Rightarrow> t) =
      sum_list (map points_awarded (filter (\<lambda>r. r_username r = fst g) rs))"
    using foldl_accumulate[of "[]" rs] by (simp add: group_stage_def)
  ultimately show ?thesis by simp
qed

lemma insort_key_fst_distinct:
  "distinct (map fst (insort_key f x xs)) = (fst x \<notin> fst ` set xs \<and> distinct (map fst xs))"
  by (induction xs) (auto simp: set_insort_key)

lemma sort_stage_set: "set (sort_stage gs) = set gs"
  by (simp add: sort_stage_def)

lemma sort_stage_distinct: "distinct (map fst (sort_stage gs)) = distinct (map fst gs)"
  unfolding sort_stage_def by (induction gs) (auto simp: insort_key_fst_distinct)

lemma sort_stage_descending: "sorted_wrt (\<lambda>a b. snd b \<le> snd a) (sort_stage gs)"
proof -
  have "sorted (map (\<lambda>g. - snd g) (sort_stage gs))" by (simp add: sort_stage_def)
  then show ?thesis by (simp add: sorted_map)
qed

lemma abc_leaderboard:
  "leaderboard 20 abc_store = (Inr [row (''A'', 70), row (''B'', 30)], abc_store)"
  by (simp add: leaderboard_def aggregate_def limit_stage_def sort_stage_def group_stage_def
        abc_store_def empty_store_def)

text \<open>
  C8, as amended. For every store and every limit of at least 1, \<open>leaderboard\<close> leaves
  the store as it is and returns the first \<open>limit\<close> rows (all of them when there are
  fewer) of a list that has exactly one row for each username occurring in the reward
  collection, each with the sum of \<open>points_awarded\<close> over that username's rewards, in
  descending order of that sum. Over the rewards A:50, B:30, A:20 the rows are (A, 70)
  and (B, 30).
\<close>

theorem leaderboard_top_totals:
  assumes "1 \<le> limit"
  shows "\<exists>tots rest.
     leaderboard limit db = (Inr (map row tots), db) \<and>
     int (length tots) \<le> limit \<and>
     (rest = [] \<or> int (length tots) = limit) \<and>
     distinct (map fst (tots @ rest)) \<and>
     fst ` set (tots @ rest) = r_username ` set (reward_coll db) \<and>
     (\<forall>g \<in> set (tots @ rest). snd g = earned (fst g) db) \<and>
     sorted_wrt (\<lambda>a b. snd b \<le> snd a) (tots @ rest)"
proof -
  let ?full = "sort_stage (group_stage (reward_coll db))"
  let ?tots = "take (nat limit) ?full"
  let ?rest = "drop (nat limit) ?full"
  have run: "leaderboard limit db = (Inr (map row ?tots), db)"
    using assms by (simp add: leaderboard_def aggregate_def limit_stage_def)
  have len: "int (length ?tots) \<le> limit" using assms by simp
  have full: "?rest = [] \<or> int (length ?tots) = limit" using assms by auto
  have d: "distinct (map fst (?tots @ ?rest))"
    by (simp add: sort_stage_distinct group_stage_distinct)
  have k: "fst ` set (?tots @ ?rest) = r_username ` set (reward_coll db)"
    by (simp add: sort_stage_set group_stage_keys)
  have t: "\<forall>g \<in> set (?tots @ ?rest). snd g = earned (fst g) db"
    by (simp add: sort_stage_set group_stage_total earned_def)
  have s: "sorted_wrt (\<lambda>a b. snd b \<le> snd a) (?tots @ ?rest)"
    by (simp add: sort_stage_descending)
  from run len full d k t s show ?thesis by blast
qed

theorem leaderboard_top_totals_witness:
  "(1::int) \<le> 20 \<and>
   leaderboard 20 abc_store = (Inr [row (''A'', 70), row (''B'', 30)], abc_store) \<and>
   (\<exists>tots rest. leaderboard 20 abc_store = (Inr (map row tots), abc_store) \<and>
      int (length tots) \<le> 20 \<and>
      fst ` set (tots @ rest) = r_username ` set (reward_coll abc_store) \<and>
      sorted_wrt (\<lambda>a b. snd b \<le> snd a) (tots @ rest))"
proof -
  have h: "(1::int) \<le> 20" by simp
  from leaderboard_top_totals[OF h, of abc_store] obtain tots rest where
    "leaderboard 20 abc_store = (Inr (map row tots), abc_store)"
    "int (length tots) \<le> 20"
    "fst ` set (tots @ rest) = r_username ` set (reward_coll abc_store)"
    "sorted_wrt (\<lambda>a b. snd b \<le> snd a) (tots @ rest)"
    by blast
  with h abc_leaderboard show ?thesis by blast
qed

text \<open>
  C8, as stated, fails for a limit that is not positive: the \<^verbatim>\<open>$limit\<close> stage is
  rejected, and the route raises instead of returning rows. Limits 0 and -1 over the
  rewards A:50, B:30, A:20 show it.
\<close>

theorem leaderboard_nonpositive_limit:
  "leaderboard 0 abc_store = (Inl OperationFailure, abc_store) \<and>
   leaderboard (- 1) abc_store = (Inl OperationFailure, abc_store)"
  by (simp add: leaderboard_def aggregate_def limit_stage_def)

end
